theory Spec2Isabelle
  imports Complex_Main "HOL-Library.AList"
begin

section \<open>The simulated retailer database (PokemonTracker.py, class RetailerDatabase)\<close>

text \<open>
  Python dictionaries are association lists in insertion order: a new key is appended,
  an existing key keeps its place (\<open>AList.update\<close>), and a lookup is \<open>map_of\<close>.
  User and channel ids are Discord's integer ids (\<open>nat\<close>), product keys are the strings
  \<open>retailer:product\<close>, and Python floats (prices, thresholds, delays, random draws)
  are modelled by the real numbers they denote.
\<close>

type_synonym stock_entry = "bool \<times> real option \<times> string option"

record retailer_database =
  products_by_retailer :: "(string \<times> string list) list"
  user_tracking :: "(nat \<times> string list) list"
  user_buylists :: "(nat \<times> (string \<times> real) list) list"
  user_channels :: "(nat \<times> nat) list"
  stock_status :: "(string \<times> stock_entry) list"

text \<open>\<open>f"{retailer}:{product}"\<close>\<close>

definition product_key :: "string \<Rightarrow> string \<Rightarrow> string" where
  "product_key retailer product = retailer @ '':'' @ product"

text \<open>\<open>get_tracking_list\<close>: \<open>self.user_tracking.get(user_id, [])\<close>\<close>

definition get_tracking_list :: "retailer_database \<Rightarrow> nat \<Rightarrow> string list" where
  "get_tracking_list db user_id =
     (case map_of (user_tracking db) user_id of None \<Rightarrow> [] | Some l \<Rightarrow> l)"

text \<open>
  \<open>add_to_tracking\<close>: creates the user's list when the user is new, appends the product
  when it is not in the list and returns \<open>True\<close>, otherwise returns \<open>False\<close>.
\<close>

definition add_to_tracking :: "retailer_database \<Rightarrow> nat \<Rightarrow> string \<Rightarrow> bool \<times> retailer_database" where
  "add_to_tracking db user_id product =
     (let db1 = (if map_of (user_tracking db) user_id = None
                 then db\<lparr>user_tracking := AList.update user_id [] (user_tracking db)\<rparr>
                 else db);
          l = get_tracking_list db1 user_id
      in if product \<notin> set l
         then (True, db1\<lparr>user_tracking := AList.update user_id (l @ [product]) (user_tracking db1)\<rparr>)
         else (False, db1))"

text \<open>\<open>remove_from_tracking\<close>: \<open>list.remove\<close> deletes the first occurrence.\<close>

definition remove_from_tracking :: "retailer_database \<Rightarrow> nat \<Rightarrow> string \<Rightarrow> bool \<times> retailer_database" where
  "remove_from_tracking db user_id product =
     (case map_of (user_tracking db) user_id of
        None \<Rightarrow> (False, db)
      | Some l \<Rightarrow>
          if product \<in> set l
          then (True, db\<lparr>user_tracking := AList.update user_id (remove1 product l) (user_tracking db)\<rparr>)
          else (False, db))"

text \<open>\<open>get_buylist\<close>, \<open>add_to_buylist\<close>, \<open>get_notification_channel\<close>, \<open>set_notification_channel\<close>\<close>

definition get_buylist :: "retailer_database \<Rightarrow> nat \<Rightarrow> (string \<times> real) list" where
  "get_buylist db user_id =
     (case map_of (user_buylists db) user_id of None \<Rightarrow> [] | Some b \<Rightarrow> b)"

definition add_to_buylist :: "retailer_database \<Rightarrow> nat \<Rightarrow> string \<Rightarrow> real \<Rightarrow> bool \<times> retailer_database" where
  "add_to_buylist db user_id product price_threshold =
     (True, db\<lparr>user_buylists :=
        AList.update user_id (AList.update product price_threshold (get_buylist db user_id))
          (user_buylists db)\<rparr>)"

definition get_notification_channel :: "retailer_database \<Rightarrow> nat \<Rightarrow> nat option" where
  "get_notification_channel db user_id = map_of (user_channels db) user_id"

definition set_notification_channel :: "retailer_database \<Rightarrow> nat \<Rightarrow> nat \<Rightarrow> bool \<times> retailer_database" where
  "set_notification_channel db user_id channel_id =
     (True, db\<lparr>user_channels := AList.update user_id channel_id (user_channels db)\<rparr>)"

text \<open>\<open>check_stock\<close>: \<open>self.stock_status.get(product, (False, None, None))\<close>\<close>

definition check_stock :: "retailer_database \<Rightarrow> string \<Rightarrow> stock_entry" where
  "check_stock db product =
     (case map_of (stock_status db) product of None \<Rightarrow> (False, None, None) | Some e \<Rightarrow> e)"

section \<open>The track command (PokemonTracker.track_add)\<close>

datatype track_response =
    ProductAddedToTracking string string bool "real option" "string option"
  | AlreadyTracking string string

definition track_add :: "retailer_database \<Rightarrow> nat \<Rightarrow> string \<Rightarrow> string \<Rightarrow> track_response \<times> retailer_database" where
  "track_add db author retailer product =
     (let full_product = product_key retailer product;
          (success, db') = add_to_tracking db author full_product
      in if success
         then (case check_stock db' full_product of
                 (in_stock, price, url) \<Rightarrow>
                   (ProductAddedToTracking product retailer in_stock price url, db'))
         else (AlreadyTracking product retailer, db'))"

section \<open>Sample stock (RetailerDatabase.__init__, _initialize_sample_stock)\<close>

text \<open>
  \<open>str.lower\<close> and \<open>str.upper\<close> on the ASCII letters; every other byte is left as it
  is. Strings are byte strings in UTF-8, and the only non-ASCII character of the product
  table, the e with acute accent of the retailer name, is already lower case.
\<close>

definition py_lower :: "string \<Rightarrow> string" where
  "py_lower s =
     map (\<lambda>c. case map_of (zip ''ABCDEFGHIJKLMNOPQRSTUVWXYZ'' ''abcdefghijklmnopqrstuvwxyz'') c of
                 None \<Rightarrow> c | Some l \<Rightarrow> l) s"


text \<open>\<open>f"https://example.com/{retailer.lower()}/{product.lower().replace(' ', '-')}"\<close>\<close>

definition sample_url :: "string \<Rightarrow> string \<Rightarrow> string" where
  "sample_url retailer product =
     ''https://example.com/'' @ py_lower retailer @ ''/''
       @ map (\<lambda>c. if c = CHR '' '' then CHR ''-'' else c) (py_lower product)"

text \<open>
  \<open>random.uniform(a, b)\<close> is \<open>a + (b - a) * random()\<close>; \<open>round(x, 2)\<close> is the nearest
  multiple of one cent (the tie-breaking of the binary float is not modelled).
\<close>

definition uniform :: "real \<Rightarrow> real \<Rightarrow> real \<Rightarrow> real" where
  "uniform a b r = a + (b - a) * r"

definition round2 :: "real \<Rightarrow> real" where
  "round2 x = real_of_int (round (x * 100)) / 100"

text \<open>
  The random source is a sequence \<open>rnd\<close> of draws of \<open>random.random()\<close>, read at a
  counter: one draw decides \<open>in_stock\<close>, and only an in-stock product draws a price.
\<close>

fun init_products ::
  "(nat \<Rightarrow> real) \<Rightarrow> string \<Rightarrow> string list \<Rightarrow> nat \<times> (string \<times> stock_entry) list
     \<Rightarrow> nat \<times> (string \<times> stock_entry) list" where
  "init_products rnd retailer [] (n, st) = (n, st)"
| "init_products rnd retailer (product # rest) (n, st) =
     (let in_stock = (rnd n > 7 / 10);
          price = (if in_stock then Some (round2 (uniform 20 120 (rnd (n + 1)))) else None);
          n' = (if in_stock then n + 2 else n + 1);
          url = sample_url retailer product
      in init_products rnd retailer rest
           (n', AList.update (product_key retailer product) (in_stock, price, Some url) st))"

fun init_retailers ::
  "(nat \<Rightarrow> real) \<Rightarrow> (string \<times> string list) list \<Rightarrow> nat \<times> (string \<times> stock_entry) list
     \<Rightarrow> nat \<times> (string \<times> stock_entry) list" where
  "init_retailers rnd [] acc = acc"
| "init_retailers rnd ((retailer, products) # rest) acc =
     init_retailers rnd rest (init_products rnd retailer products acc)"

definition initialize_sample_stock :: "(nat \<Rightarrow> real) \<Rightarrow> retailer_database \<Rightarrow> retailer_database" where
  "initialize_sample_stock rnd db =
     db\<lparr>stock_status := snd (init_retailers rnd (products_by_retailer db) (0, stock_status db))\<rparr>"

definition pokemon_center :: string where
  "pokemon_center = ''Pok'' @ [CHR 0xC3, CHR 0xA9] @ ''mon Center''"

definition sample_products_by_retailer :: "(string \<times> string list) list" where
  "sample_products_by_retailer =
     [(''Walmart'', [''Scarlet & Violet ETB'', ''Paldean Fates Booster Box'', ''Charizard ex Box'']),
      (''Target'', [''Brilliant Stars ETB'', ''Temporal Forces Booster Pack'', ''Celebrations Tin'']),
      (pokemon_center, [''Tera Charizard ex Premium Collection'', ''Paldean Fates ETB Plus'',
                        ''Scarlet & Violet 151 Booster Box'']),
      (''Amazon'', [''Paradox Rift Booster Box'', ''Obsidian Flames ETB'',
                    ''Pok'' @ [CHR 0xC3, CHR 0xA9] @ ''mon TCG: Trick or Trade BOOster Bundle'']),
      (''GameStop'', [''Temporal Forces ETB'', ''Scarlet & Violet 151 Mini Tin'',
                      ''Paradox Rift 3-Pack Blister'']),
      (''Best Buy'', [''Paldean Fates Tin'', ''Scarlet & Violet Crown Zenith ETB'',
                      ''Pok'' @ [CHR 0xC3, CHR 0xA9] @ ''mon TCG Battle Academy'']),
      (''PaladinCards'', [''Neo Genesis Singles'', ''Temporal Forces Singles'',
                          ''Charizard VMAX Rainbow Rare'']),
      (''ThePokeCave'', [''Classic Collection Box'', ''Pikachu ex Box'', ''Mimikyu V Box''])]"

text \<open>\<open>RetailerDatabase()\<close>: empty user dictionaries, then the sample stock.\<close>

definition empty_database :: retailer_database where
  "empty_database =
     \<lparr>products_by_retailer = sample_products_by_retailer, user_tracking = [],
      user_buylists = [], user_channels = [], stock_status = []\<rparr>"

definition new_database :: "(nat \<Rightarrow> real) \<Rightarrow> retailer_database" where
  "new_database rnd = initialize_sample_stock rnd empty_database"

section \<open>Simulated stock change (RetailerDatabase.simulate_stock_change)\<close>

text \<open>
  \<open>random.choice(products)\<close> is \<open>products[i]\<close> for a random index below the length,
  here \<open>pick mod length products\<close>; \<open>unif\<close> is the draw behind \<open>random.uniform\<close>.
  The result \<open>(None, None, None, None)\<close> of the source is \<open>None\<close>. The lookup
  \<open>self.stock_status[product]\<close> of a key just taken from the dictionary cannot miss;
  the \<open>None\<close> branch of the model stands for that KeyError.
\<close>

type_synonym stock_change = "string \<times> bool \<times> real option \<times> string option"

definition simulate_stock_change ::
  "nat \<Rightarrow> real \<Rightarrow> retailer_database \<Rightarrow> stock_change option \<times> retailer_database" where
  "simulate_stock_change pick unif db =
     (let products = map fst (stock_status db)
      in if products \<noteq> []
         then (let product = products ! (pick mod length products)
               in case map_of (stock_status db) product of
                    None \<Rightarrow> (None, db)
                  | Some (cur, old_price, url) \<Rightarrow>
                      (let in_stock = \<not> cur;
                           price = (if in_stock then Some (round2 (uniform 20 120 unif)) else None)
                       in (Some (product, in_stock, price, url),
                           db\<lparr>stock_status := AList.update product (in_stock, price, url) (stock_status db)\<rparr>)))
         else (None, db))"

text \<open>The invariant of the stock dictionary: an entry that is out of stock has no price.\<close>

definition stock_inv :: "(string \<times> stock_entry) list \<Rightarrow> bool" where
  "stock_inv st = list_all (\<lambda>(k, in_stock, price, url). in_stock \<or> price = None) st"

text \<open>Every key of the stock dictionary has the form \<open>retailer:product\<close>.\<close>

definition stock_keys_ok :: "(string \<times> stock_entry) list \<Rightarrow> bool" where
  "stock_keys_ok st = list_all (\<lambda>(k, e). CHR '':'' \<in> set k) st"

section \<open>The polling task (PokemonTracker.check_stock_task)\<close>

text \<open>
  The two embeds the task sends, with the data their texts are formatted from: the stock
  alert (mentioned user, product key, status, price, link) and the auto-purchase report
  (mentioned user, product key, price).
\<close>

datatype alert =
    StockAlert nat string bool "real option" "string option"
  | AutoPurchaseSuccessful nat string real

text \<open>
  What the task sees of Discord: whether \<open>bot.get_channel(channel_id)\<close> finds a channel,
  and whether \<open>channel.send\<close> raises.
\<close>

record discord_bot =
  get_channel :: "nat \<Rightarrow> bool"
  channel_send_raises :: "nat \<Rightarrow> alert \<Rightarrow> bool"

text \<open>
  \<open>if channel_id: channel = self.bot.get_channel(channel_id); if channel: await channel.send(...)\<close>:
  the messages sent (channel, embed) and whether the send raised. A channel id of 0 is falsy.
\<close>

definition send_to_channel :: "discord_bot \<Rightarrow> nat option \<Rightarrow> alert \<Rightarrow> (nat \<times> alert) list \<times> bool" where
  "send_to_channel dc channel_id m =
     (case channel_id of
        None \<Rightarrow> ([], False)
      | Some c \<Rightarrow>
          if c \<noteq> 0 \<and> get_channel dc c
          then (if channel_send_raises dc c m then ([], True) else ([(c, m)], False))
          else ([], False))"

text \<open>\<open>in_stock and product in buylist and price and price <= buylist[product]\<close>\<close>

definition qualifies :: "bool \<Rightarrow> real option \<Rightarrow> string \<Rightarrow> (string \<times> real) list \<Rightarrow> bool" where
  "qualifies in_stock price product buylist =
     (in_stock \<and>
      (case map_of buylist product of
         None \<Rightarrow> False
       | Some threshold \<Rightarrow>
           (case price of None \<Rightarrow> False | Some p \<Rightarrow> p \<noteq> 0 \<and> p \<le> threshold)))"

text \<open>
  The body of the loop over \<open>user_tracking.items()\<close> for one user: the messages sent, the
  simulated purchases made (user, product key, price), and whether a send raised, which
  leaves the loop.
\<close>

definition notify_user ::
  "discord_bot \<Rightarrow> retailer_database \<Rightarrow> stock_change \<Rightarrow> nat \<Rightarrow> string list
     \<Rightarrow> (nat \<times> alert) list \<times> (nat \<times> string \<times> real) list \<times> bool" where
  "notify_user dc db change user_id tracking_list =
     (case change of (product, in_stock, price, url) \<Rightarrow>
        if product \<in> set tracking_list
        then (let channel_id = get_notification_channel db user_id;
                  (sent1, raised1) = send_to_channel dc channel_id
                                       (StockAlert user_id product in_stock price url)
              in if raised1 then (sent1, [], True)
                 else if qualifies in_stock price product (get_buylist db user_id)
                 then (case price of
                         None \<Rightarrow> (sent1, [], False)
                       | Some p \<Rightarrow>
                           (let (sent2, raised2) = send_to_channel dc channel_id
                                                     (AutoPurchaseSuccessful user_id product p)
                            in (sent1 @ sent2, [(user_id, product, p)], raised2)))
                 else (sent1, [], False))
        else ([], [], False))"

fun notify_users ::
  "discord_bot \<Rightarrow> retailer_database \<Rightarrow> stock_change \<Rightarrow> (nat \<times> string list) list
     \<Rightarrow> (nat \<times> alert) list \<times> (nat \<times> string \<times> real) list \<times> bool" where
  "notify_users dc db change [] = ([], [], False)"
| "notify_users dc db change ((user_id, tracking_list) # rest) =
     (case notify_user dc db change user_id tracking_list of
        (sent1, bought1, raised1) \<Rightarrow>
          if raised1 then (sent1, bought1, True)
          else (case notify_users dc db change rest of
                  (sent2, bought2, raised2) \<Rightarrow> (sent1 @ sent2, bought1 @ bought2, raised2)))"

text \<open>
  One run of the task, taken without another coroutine changing the dictionaries while a
  send is awaited. \<open>gate\<close> is the draw compared with 0.2. The stock change event of a
  run is the change the task goes on to notify users about. \<open>error_logged\<close> records that
  the \<open>except Exception\<close> handler ran: on a key without a colon (\<open>product.split(":", 1)\<close>
  cannot be unpacked) or on a send that raised.
\<close>

record tick_result =
  db_after :: retailer_database
  event :: "stock_change option"
  sent :: "(nat \<times> alert) list"
  purchases :: "(nat \<times> string \<times> real) list"
  error_logged :: bool

definition check_stock_task ::
  "discord_bot \<Rightarrow> real \<Rightarrow> nat \<Rightarrow> real \<Rightarrow> retailer_database \<Rightarrow> tick_result" where
  "check_stock_task dc gate pick unif db =
     (if gate < 2 / 10
      then (case simulate_stock_change pick unif db of
              (None, db') \<Rightarrow>
                \<lparr>db_after = db', event = None, sent = [], purchases = [], error_logged = False\<rparr>
            | (Some (product, in_stock, price, url), db') \<Rightarrow>
                if product = []
                then \<lparr>db_after = db', event = None, sent = [], purchases = [], error_logged = False\<rparr>
                else if CHR '':'' \<notin> set product
                then \<lparr>db_after = db', event = None, sent = [], purchases = [], error_logged = True\<rparr>
                else (case notify_users dc db' (product, in_stock, price, url) (user_tracking db') of
                        (s, b, raised) \<Rightarrow>
                          \<lparr>db_after = db', event = Some (product, in_stock, price, url),
                           sent = s, purchases = b, error_logged = raised\<rparr>))
      else \<lparr>db_after = db, event = None, sent = [], purchases = [], error_logged = False\<rparr>)"

section \<open>The fetch executor (BaseRetailer._make_request)\<close>

datatype log_level = INFO | WARNING | ERROR

text \<open>
  What one attempt meets: a response with its status and body, or one of the three
  exception handlers of the source (\<open>aiohttp.ClientError\<close>, \<open>asyncio.TimeoutError\<close>,
  any other \<open>Exception\<close>).
\<close>

datatype response = Status nat string | ClientError | TimeoutError | OtherError

datatype request_log =
    ResourceNotFound
  | RateLimited real
  | ServerError nat real
  | RequestFailed nat
  | ClientErrorDuringRequest
  | RequestTimedOut nat int
  | UnexpectedError
  | AllAttemptsFailed int

text \<open>
  What a call does, in order: requests issued (with the attempt number), the three kinds of
  \<open>asyncio.sleep\<close> (the backoff \<open>wait_time\<close>, the \<open>delay\<close> of an exception handler, the
  \<open>request_delay\<close> of the \<open>finally\<close> clause) and log records.
\<close>

datatype request_event =
    Request nat
  | Backoff real
  | ErrorPause real
  | RequestDelay real
  | Log log_level request_log






fun request_no :: "request_event \<Rightarrow> nat list" where
  "request_no (Request a) = [a]"
| "request_no _ = []"

fun backoff_time :: "request_event \<Rightarrow> real list" where
  "backoff_time (Backoff w) = [w]"
| "backoff_time _ = []"

text \<open>The attempts made by a call, and its backoff waits, in order.\<close>

definition requests_of :: "request_event list \<Rightarrow> nat list" where
  "requests_of tr = concat (map request_no tr)"

definition backoffs_of :: "request_event list \<Rightarrow> real list" where
  "backoffs_of tr = concat (map backoff_time tr)"

section \<open>The notification dispatcher (RetailerCog._process_notifications)\<close>

datatype send_outcome = Delivered | RaisesDiscordServerError | RaisesForbidden | RaisesOther

text \<open>
  What the dispatcher sees of Discord: whether \<open>bot.get_user\<close> finds the user, and what
  \<open>user.send\<close> does in a given iteration of the loop.
\<close>

record discord_users =
  get_user :: "nat \<Rightarrow> bool"
  user_send :: "nat \<Rightarrow> nat \<Rightarrow> string \<Rightarrow> send_outcome"

datatype notification_log =
    NotificationSent
  | ServerErrorSending
  | ForbiddenSending
  | ErrorSending
  | UserNotFound

datatype dispatch_event =
    SendAttempt nat string
  | DispatchLog log_level notification_log nat
  | TaskDone
  | RateLimitSleep real

text \<open>The body of the loop for one queued \<open>(user_id, message)\<close>, in iteration \<open>n\<close>.\<close>

definition process_notification :: "discord_users \<Rightarrow> nat \<Rightarrow> nat \<times> string \<Rightarrow> dispatch_event list" where
  "process_notification us n item =
     (case item of (user_id, message) \<Rightarrow>
        (if get_user us user_id
         then SendAttempt user_id message #
              (case user_send us n user_id message of
                 Delivered \<Rightarrow> [DispatchLog INFO NotificationSent user_id]
               | RaisesDiscordServerError \<Rightarrow> [DispatchLog ERROR ServerErrorSending user_id]
               | RaisesForbidden \<Rightarrow> [DispatchLog ERROR ForbiddenSending user_id]
               | RaisesOther \<Rightarrow> [DispatchLog ERROR ErrorSending user_id])
         else [DispatchLog WARNING UserNotFound user_id])
        @ [TaskDone, RateLimitSleep 1])"

text \<open>
  \<open>while not self.bot.is_closed()\<close> over the messages that the queue delivers, in order;
  \<open>is_closed n\<close> is what \<open>is_closed()\<close> answers before iteration \<open>n\<close>.
\<close>

fun process_notifications ::
  "discord_users \<Rightarrow> (nat \<Rightarrow> bool) \<Rightarrow> nat \<Rightarrow> (nat \<times> string) list \<Rightarrow> dispatch_event list" where
  "process_notifications us is_closed n [] = []"
| "process_notifications us is_closed n (item # queue) =
     (if is_closed n then []
      else process_notification us n item @ process_notifications us is_closed (Suc n) queue)"

fun send_attempt :: "dispatch_event \<Rightarrow> (nat \<times> string) list" where
  "send_attempt (SendAttempt u m) = [(u, m)]"
| "send_attempt _ = []"

definition send_attempts :: "dispatch_event list \<Rightarrow> (nat \<times> string) list" where
  "send_attempts tr = concat (map send_attempt tr)"

section \<open>The buy command (RetailerCog.buy_command)\<close>






section \<open>Price extraction (BaseRetailer.extract_price)\<close>

text \<open>
  Here a Python string is the list of its Unicode code points, since the function names
  characters outside ASCII: the dollar sign is 36, the comma 44, the pound sign 163 and the
  euro sign 8364. \<open>str.strip()\<close> removes the characters of \<open>str.isspace\<close> from both ends.
\<close>

definition py_isspace :: "nat \<Rightarrow> bool" where
  "py_isspace c =
     ((9 \<le> c \<and> c \<le> 13) \<or> (28 \<le> c \<and> c \<le> 32) \<or> c = 133 \<or> c = 160 \<or> c = 5760
      \<or> (8192 \<le> c \<and> c \<le> 8202) \<or> c = 8232 \<or> c = 8233 \<or> c = 8239 \<or> c = 8287 \<or> c = 12288)"

definition py_strip :: "nat list \<Rightarrow> nat list" where
  "py_strip s = rev (dropWhile py_isspace (rev (dropWhile py_isspace s)))"

text \<open>\<open>s.replace(c, "")\<close> for a single character \<open>c\<close>\<close>

definition py_remove :: "nat \<Rightarrow> nat list \<Rightarrow> nat list" where
  "py_remove c s = filter (\<lambda>x. x \<noteq> c) s"

text \<open>
  The builtin \<open>float\<close> is a parameter: \<open>pyfloat s\<close> is \<open>None\<close> where \<open>float(s)\<close> raises
  ValueError, the only exception it raises on a string.
\<close>

definition extract_price :: "(nat list \<Rightarrow> 'f option) \<Rightarrow> nat list option \<Rightarrow> 'f option" where
  "extract_price pyfloat text =
     (case text of
        None \<Rightarrow> None
      | Some t \<Rightarrow>
          if t \<noteq> []
          then (let cleaned_text = py_strip (py_remove 44 (py_remove 163 (py_remove 8364 (py_remove 36 t))))
                in pyfloat cleaned_text)
          else None)"

text \<open>
  The same cleaning in the words of the specification: the text without its dollar, euro,
  pound and comma characters and without the whitespace around it.
\<close>

definition surrounding_whitespace_removed :: "nat list \<Rightarrow> nat list" where
  "surrounding_whitespace_removed s = dropWhile py_isspace (rev (dropWhile py_isspace (rev s)))"

definition spec_cleaned :: "nat list \<Rightarrow> nat list" where
  "spec_cleaned t = surrounding_whitespace_removed (filter (\<lambda>c. c \<notin> {36, 8364, 163, 44}) t)"

section \<open>A small database for concrete runs\<close>

definition demo_database :: retailer_database where
  "demo_database =
     \<lparr>products_by_retailer = [(''Walmart'', [''Pikachu ex Box''])],
      user_tracking = [(1, [''Walmart:Pikachu ex Box'']), (2, [''Walmart:Pikachu ex Box''])],
      user_buylists = [(1, [(''Walmart:Pikachu ex Box'', 50)])],
      user_channels = [(2, 5)],
      stock_status = [(''Walmart:Pikachu ex Box'', (False, None, Some ''https://example.com/walmart/pikachu-ex-box''))]\<rparr>"

definition demo_bot :: discord_bot where
  "demo_bot = \<lparr>get_channel = (\<lambda>c. True), channel_send_raises = (\<lambda>c m. False)\<rparr>"


definition demo_key :: string where
  "demo_key = ''Walmart:Pikachu ex Box''"

definition demo_url :: "string option" where
  "demo_url = Some ''https://example.com/walmart/pikachu-ex-box''"




section \<open>Requests for concrete runs\<close>





section \<open>A dispatcher run\<close>

definition demo_users :: discord_users where
  "demo_users =
     \<lparr>get_user = (\<lambda>u. u \<noteq> 9),
      user_send = (\<lambda>n u m. if u = 7 then RaisesForbidden else Delivered)\<rparr>"

text \<open>A stand-in for \<open>float\<close> that reads the strings of decimal digits only.\<close>

definition digits_only_float :: "nat list \<Rightarrow> nat option" where
  "digits_only_float s =
     (if s \<noteq> [] \<and> list_all (\<lambda>c. 48 \<le> c \<and> c \<le> 57) s
      then Some (foldl (\<lambda>v c. 10 * v + (c - 48)) 0 s) else None)"

section \<open>Tracking lists\<close>

lemma get_tracking_list_update:
  "get_tracking_list (db\<lparr>user_tracking := AList.update u l (user_tracking db)\<rparr>) u = l"
  by (simp add: get_tracking_list_def update_conv')

lemma add_to_tracking_list:
  "get_tracking_list (snd (add_to_tracking db u k)) u =
     (if k \<in> set (get_tracking_list db u) then get_tracking_list db u
      else get_tracking_list db u @ [k])"
  by (auto simp: add_to_tracking_def Let_def get_tracking_list_def update_conv'
           split: option.splits)

lemma add_to_tracking_result:
  "fst (add_to_tracking db u k) = (k \<notin> set (get_tracking_list db u))"
  by (auto simp: add_to_tracking_def Let_def get_tracking_list_def update_conv'
           split: option.splits)

lemma add_to_tracking_noop:
  "k \<in> set (get_tracking_list db u) \<Longrightarrow> add_to_tracking db u k = (False, db)"
  by (auto simp: add_to_tracking_def Let_def get_tracking_list_def split: option.splits)

lemma add_to_tracking_distinct:
  "distinct (get_tracking_list db u) \<Longrightarrow> distinct (get_tracking_list (snd (add_to_tracking db u k)) u)"
  by (simp add: add_to_tracking_list)

lemma count_list_distinct_mem:
  "distinct xs \<Longrightarrow> x \<in> set xs \<Longrightarrow> count_list xs x = 1"
  by (induction xs) auto

text \<open>
  Claim C6. Starting from a tracking list without duplicates (the lists are only built by
  \<open>add_to_tracking\<close>, which keeps them so), calling the track command twice for the same
  user, retailer and product leaves the key in the user's tracking list exactly once; the
  second call changes nothing and answers "already tracking", which is an ordinary
  response and no error.
\<close>

theorem track_add_twice:
  assumes "distinct (get_tracking_list db u)"
  shows "case track_add db u retailer product of
           (r1, db1) \<Rightarrow>
             (case track_add db1 u retailer product of
                (r2, db2) \<Rightarrow>
                  count_list (get_tracking_list db2 u) (product_key retailer product) = 1
                  \<and> r2 = AlreadyTracking product retailer
                  \<and> db2 = db1
                  \<and> fst (add_to_tracking db1 u (product_key retailer product)) = False)"
proof -
  let ?k = "product_key retailer product"
  obtain s db1 where a1: "add_to_tracking db u ?k = (s, db1)"
    by (cases "add_to_tracking db u ?k")
  have db1: "db1 = snd (add_to_tracking db u ?k)" using a1 by simp
  have mem: "?k \<in> set (get_tracking_list db1 u)"
    unfolding db1 by (simp add: add_to_tracking_list)
  have dist: "distinct (get_tracking_list db1 u)"
    unfolding db1 using assms by (rule add_to_tracking_distinct)
  have a2: "add_to_tracking db1 u ?k = (False, db1)"
    using mem by (rule add_to_tracking_noop)
  have cnt: "count_list (get_tracking_list db1 u) ?k = 1"
    using dist mem by (rule count_list_distinct_mem)
  have t1: "snd (track_add db u retailer product) = db1"
    using a1 by (simp add: track_add_def Let_def split: prod.splits)
  have t2: "track_add db1 u retailer product = (AlreadyTracking product retailer, db1)"
    using a2 by (simp add: track_add_def Let_def)
  show ?thesis
    using t1 t2 a2 cnt by (auto split: prod.splits)
qed

theorem track_add_twice_witness:
  "distinct (get_tracking_list empty_database 7) \<and>
   (case track_add empty_database 7 ''Walmart'' ''Charizard ex Box'' of
      (r1, db1) \<Rightarrow>
        (case track_add db1 7 ''Walmart'' ''Charizard ex Box'' of
           (r2, db2) \<Rightarrow>
             count_list (get_tracking_list db2 7) (product_key ''Walmart'' ''Charizard ex Box'') = 1
             \<and> r2 = AlreadyTracking ''Charizard ex Box'' ''Walmart''
             \<and> db2 = db1
             \<and> fst (add_to_tracking db1 7 (product_key ''Walmart'' ''Charizard ex Box'')) = False))"
proof -
  have h: "distinct (get_tracking_list empty_database 7)"
    by (simp add: get_tracking_list_def empty_database_def)
  from track_add_twice [OF h] show ?thesis using h by simp
qed

section \<open>Sample stock and simulated changes\<close>

lemma nth_mod_mem: "xs \<noteq> [] \<Longrightarrow> xs ! (n mod length xs) \<in> set xs"
  by simp

lemma simulate_None:
  assumes "simulate_stock_change pick unif db = (None, db')"
  shows "db' = db \<and> stock_status db = []"
proof (cases "stock_status db = []")
  case True
  with assms show ?thesis by (simp add: simulate_stock_change_def)
next
  case False
  let ?ks = "map fst (stock_status db)"
  let ?k = "?ks ! (pick mod length ?ks)"
  have "?k \<in> set ?ks" using False by (intro nth_mod_mem) simp
  then have "map_of (stock_status db) ?k \<noteq> None"
    by (simp add: map_of_eq_None_iff)
  with assms False show ?thesis
    by (auto simp: simulate_stock_change_def Let_def split: option.splits)
qed

lemma simulate_Some:
  assumes "simulate_stock_change pick unif db = (Some (k, i, p, url), db')"
  shows "\<exists>cur old. map_of (stock_status db) k = Some (cur, old, url) \<and> i = (\<not> cur)
           \<and> p = (if i then Some (round2 (uniform 20 120 unif)) else None)
           \<and> db' = db\<lparr>stock_status := AList.update k (i, p, url) (stock_status db)\<rparr>
           \<and> k \<in> fst ` set (stock_status db)"
  using assms
  by (auto simp: simulate_stock_change_def Let_def map_of_eq_None_iff
           split: option.splits if_splits dest: map_of_SomeD)

lemma list_all_update:
  "list_all P al \<Longrightarrow> P (k, v) \<Longrightarrow> list_all P (AList.update k v al)"
  by (induction al) auto

lemma init_products_inv:
  "stock_inv (snd acc) \<Longrightarrow> stock_inv (snd (init_products rnd retailer products acc))"
proof (induction products arbitrary: acc)
  case Nil
  then show ?case by (cases acc) simp
next
  case (Cons product rest)
  obtain n st where acc: "acc = (n, st)" by (cases acc)
  show ?case
    unfolding acc using Cons.prems
    by (auto simp: acc Let_def stock_inv_def intro!: Cons.IH [unfolded stock_inv_def] list_all_update)
qed

lemma init_retailers_inv:
  "stock_inv (snd acc) \<Longrightarrow> stock_inv (snd (init_retailers rnd table acc))"
proof (induction table arbitrary: acc)
  case Nil
  then show ?case by simp
next
  case (Cons entry table)
  obtain retailer products where e: "entry = (retailer, products)" by (cases entry)
  have "stock_inv (snd (init_products rnd retailer products acc))"
    using Cons.prems by (rule init_products_inv)
  then show ?case unfolding e by (simp add: Cons.IH)
qed

lemma new_database_inv: "stock_inv (stock_status (new_database rnd))"
proof -
  have "stock_inv (snd (0::nat, []::(string \<times> stock_entry) list))"
    by (simp add: stock_inv_def)
  then have "stock_inv (snd (init_retailers rnd sample_products_by_retailer (0, [])))"
    by (rule init_retailers_inv)
  then show ?thesis
    by (simp add: new_database_def initialize_sample_stock_def empty_database_def)
qed

lemma product_key_colon: "CHR '':'' \<in> set (product_key retailer product)"
  by (simp add: product_key_def)

lemma init_products_keys:
  "stock_keys_ok (snd acc) \<Longrightarrow> stock_keys_ok (snd (init_products rnd retailer products acc))"
proof (induction products arbitrary: acc)
  case Nil
  then show ?case by (cases acc) simp
next
  case (Cons product rest)
  obtain n st where acc: "acc = (n, st)" by (cases acc)
  show ?case
    unfolding acc using Cons.prems
    by (auto simp: acc Let_def stock_keys_ok_def product_key_colon
             intro!: Cons.IH [unfolded stock_keys_ok_def] list_all_update)
qed

lemma init_retailers_keys:
  "stock_keys_ok (snd acc) \<Longrightarrow> stock_keys_ok (snd (init_retailers rnd table acc))"
proof (induction table arbitrary: acc)
  case Nil
  then show ?case by simp
next
  case (Cons entry table)
  obtain retailer products where e: "entry = (retailer, products)" by (cases entry)
  have "stock_keys_ok (snd (init_products rnd retailer products acc))"
    using Cons.prems by (rule init_products_keys)
  then show ?case unfolding e by (simp add: Cons.IH)
qed

lemma new_database_keys: "stock_keys_ok (stock_status (new_database rnd))"
proof -
  have "stock_keys_ok (snd (0::nat, []::(string \<times> stock_entry) list))"
    by (simp add: stock_keys_ok_def)
  then have "stock_keys_ok (snd (init_retailers rnd sample_products_by_retailer (0, [])))"
    by (rule init_retailers_keys)
  then show ?thesis
    by (simp add: new_database_def initialize_sample_stock_def empty_database_def)
qed

lemma simulate_inv:
  "stock_inv (stock_status db) \<Longrightarrow> stock_inv (stock_status (snd (simulate_stock_change pick unif db)))"
proof (cases "simulate_stock_change pick unif db")
  case (Pair ev db')
  assume inv: "stock_inv (stock_status db)"
  show ?thesis
  proof (cases ev)
    case None
    with Pair simulate_None have "db' = db" by blast
    with Pair inv show ?thesis by simp
  next
    case (Some c)
    obtain k i p url where c: "c = (k, i, p, url)" by (cases c)
    from simulate_Some [of pick unif db k i p url db'] Pair Some c
    have p: "p = (if i then Some (round2 (uniform 20 120 unif)) else None)"
      and db': "db' = db\<lparr>stock_status := AList.update k (i, p, url) (stock_status db)\<rparr>"
      by auto
    have "i \<or> p = None" using p by simp
    then have "stock_inv (AList.update k (i, p, url) (stock_status db))"
      using inv unfolding stock_inv_def by (intro list_all_update) auto
    then show ?thesis using Pair db' by simp
  qed
qed

lemma simulate_check_stock:
  assumes "simulate_stock_change pick unif db = (Some (k, i, p, url), db')"
  shows "(\<exists>old. check_stock db k = (\<not> i, old, url)) \<and> check_stock db' k = (i, p, url)
         \<and> (\<forall>k'. k' \<noteq> k \<longrightarrow> check_stock db' k' = check_stock db k')"
proof -
  from simulate_Some [OF assms] obtain cur old where
    m: "map_of (stock_status db) k = Some (cur, old, url)" and i: "i = (\<not> cur)"
    and db': "db' = db\<lparr>stock_status := AList.update k (i, p, url) (stock_status db)\<rparr>"
    by blast
  show ?thesis
    using m i by (auto simp: check_stock_def db' update_conv')
qed

text \<open>
  Claim C10. The stock dictionary of a fresh database satisfies the invariant that an
  out-of-stock entry has no price, whatever the random draws; every call of
  \<open>simulate_stock_change\<close> preserves it, and the call flips \<open>in_stock\<close> of the chosen
  entry, keeps its url and leaves every other entry as it was (with an empty dictionary it
  changes nothing).
\<close>

theorem stock_invariant:
  "stock_inv (stock_status (new_database rnd))
   \<and> (stock_inv (stock_status db)
        \<longrightarrow> stock_inv (stock_status (snd (simulate_stock_change pick unif db))))
   \<and> (case simulate_stock_change pick unif db of
        (None, db') \<Rightarrow> db' = db
      | (Some (k, in_stock, price, url), db') \<Rightarrow>
          fst (check_stock db k) = (\<not> in_stock)
          \<and> snd (snd (check_stock db k)) = url
          \<and> check_stock db' k = (in_stock, price, url)
          \<and> (\<not> in_stock \<longrightarrow> price = None)
          \<and> (\<forall>k'. k' \<noteq> k \<longrightarrow> check_stock db' k' = check_stock db k'))"
proof (intro conjI)
  show "stock_inv (stock_status (new_database rnd))" by (rule new_database_inv)
  show "stock_inv (stock_status db)
        \<longrightarrow> stock_inv (stock_status (snd (simulate_stock_change pick unif db)))"
    by (simp add: simulate_inv)
  show "case simulate_stock_change pick unif db of
        (None, db') \<Rightarrow> db' = db
      | (Some (k, in_stock, price, url), db') \<Rightarrow>
          fst (check_stock db k) = (\<not> in_stock)
          \<and> snd (snd (check_stock db k)) = url
          \<and> check_stock db' k = (in_stock, price, url)
          \<and> (\<not> in_stock \<longrightarrow> price = None)
          \<and> (\<forall>k'. k' \<noteq> k \<longrightarrow> check_stock db' k' = check_stock db k')"
  proof (cases "simulate_stock_change pick unif db")
    case (Pair ev db')
    show ?thesis
    proof (cases ev)
      case None
      with Pair simulate_None show ?thesis by auto
    next
      case (Some c)
      obtain k i p url where c: "c = (k, i, p, url)" by (cases c)
      have s: "simulate_stock_change pick unif db = (Some (k, i, p, url), db')"
        using Pair Some c by simp
      from simulate_Some [OF s] have "\<not> i \<longrightarrow> p = None" by auto
      with simulate_check_stock [OF s] show ?thesis
        unfolding s by auto
    qed
  qed
qed

lemma round2_50: "round2 (uniform 20 120 (3/10)) = 50"
  by (simp add: round2_def uniform_def)

theorem stock_invariant_witness:
  "stock_inv (stock_status demo_database)
   \<and> stock_inv (stock_status (snd (simulate_stock_change 0 (3/10) demo_database)))
   \<and> check_stock (snd (simulate_stock_change 0 (3/10) demo_database)) ''Walmart:Pikachu ex Box''
       = (True, Some 50, Some ''https://example.com/walmart/pikachu-ex-box'')"
proof -
  have h: "stock_inv (stock_status demo_database)"
    by (simp add: stock_inv_def demo_database_def)
  have s: "simulate_stock_change 0 (3/10) demo_database =
      (Some (''Walmart:Pikachu ex Box'', True, Some 50, Some ''https://example.com/walmart/pikachu-ex-box''),
       demo_database\<lparr>stock_status := [(''Walmart:Pikachu ex Box'', (True, Some 50, Some ''https://example.com/walmart/pikachu-ex-box''))]\<rparr>)"
    by (simp add: simulate_stock_change_def demo_database_def round2_50 Let_def)
  from stock_invariant [of "\<lambda>_. 0" demo_database 0 "3/10"] h show ?thesis
    by (simp add: s)
qed

section \<open>The polling task\<close>

lemma tick_cases:
  obtains
    (quiet) "event (check_stock_task dc gate pick unif db) = None"
            "sent (check_stock_task dc gate pick unif db) = []"
            "purchases (check_stock_task dc gate pick unif db) = []"
            "stock_keys_ok (stock_status db) \<Longrightarrow>
               check_stock_task dc gate pick unif db =
                 \<lparr>db_after = db, event = None, sent = [], purchases = [], error_logged = False\<rparr>"
  | (change) k i p url db' s b raised where
            "gate < 2 / 10"
            "simulate_stock_change pick unif db = (Some (k, i, p, url), db')"
            "notify_users dc db' (k, i, p, url) (user_tracking db') = (s, b, raised)"
            "check_stock_task dc gate pick unif db =
               \<lparr>db_after = db', event = Some (k, i, p, url), sent = s, purchases = b,
                error_logged = raised\<rparr>"
proof (cases "gate < 2 / 10")
  case False
  then have "check_stock_task dc gate pick unif db =
      \<lparr>db_after = db, event = None, sent = [], purchases = [], error_logged = False\<rparr>"
    by (simp add: check_stock_task_def)
  then show ?thesis by (intro quiet) simp_all
next
  case gate: True
  obtain ev db' where sim: "simulate_stock_change pick unif db = (ev, db')"
    by (cases "simulate_stock_change pick unif db")
  show ?thesis
  proof (cases ev)
    case None
    with sim simulate_None have "db' = db" by blast
    with sim None gate have "check_stock_task dc gate pick unif db =
      \<lparr>db_after = db, event = None, sent = [], purchases = [], error_logged = False\<rparr>"
      by (simp add: check_stock_task_def)
    then show ?thesis by (intro quiet) simp_all
  next
    case (Some c)
    obtain k i p url where c: "c = (k, i, p, url)" by (cases c)
    have sim': "simulate_stock_change pick unif db = (Some (k, i, p, url), db')"
      using sim Some c by simp
    from simulate_Some [OF sim'] have mem: "k \<in> fst ` set (stock_status db)" by blast
    show ?thesis
    proof (cases "k \<noteq> [] \<and> CHR '':'' \<in> set k")
      case True
      obtain s b raised where n: "notify_users dc db' (k, i, p, url) (user_tracking db') = (s, b, raised)"
        by (cases "notify_users dc db' (k, i, p, url) (user_tracking db')")
      have "check_stock_task dc gate pick unif db =
               \<lparr>db_after = db', event = Some (k, i, p, url), sent = s, purchases = b,
                error_logged = raised\<rparr>"
        using gate sim' True n by (simp add: check_stock_task_def)
      with gate sim' n show ?thesis by (rule change)
    next
      case False
      have nokeys: "\<not> stock_keys_ok (stock_status db)"
      proof
        assume "stock_keys_ok (stock_status db)"
        then have "\<forall>e \<in> set (stock_status db). CHR '':'' \<in> set (fst e)"
          by (auto simp: stock_keys_ok_def list_all_iff)
        with mem have "CHR '':'' \<in> set k" by auto
        with False show False by auto
      qed
      have "event (check_stock_task dc gate pick unif db) = None
            \<and> sent (check_stock_task dc gate pick unif db) = []
            \<and> purchases (check_stock_task dc gate pick unif db) = []"
        using gate sim' False by (auto simp: check_stock_task_def)
      with nokeys show ?thesis by (intro quiet) simp_all
    qed
  qed
qed

lemma simulate_changes_status:
  assumes "simulate_stock_change pick unif db = (Some (k, i, p, url), db')"
  shows "stock_status db' \<noteq> stock_status db"
proof
  assume "stock_status db' = stock_status db"
  then have "check_stock db' k = check_stock db k" by (simp add: check_stock_def)
  with simulate_check_stock [OF assms] show False by auto
qed

lemma send_to_channel_sent:
  "send_to_channel dc ch m = (s, raised) \<Longrightarrow>
     s = (if \<not> raised \<and> (\<exists>c. ch = Some c \<and> c \<noteq> 0 \<and> get_channel dc c) then [(the ch, m)] else [])"
  by (auto simp: send_to_channel_def split: option.splits if_splits)



lemma notify_user_purchases:
  assumes "notify_user dc db (k, i, p, url) u tls = (s, b, raised)"
  shows "b = [] \<or> (\<exists>q. b = [(u, k, q)] \<and> p = Some q \<and> i \<and> k \<in> set tls
                       \<and> qualifies i p k (get_buylist db u))"
  using assms
  by (auto simp: notify_user_def Let_def qualifies_def split: if_splits option.splits prod.splits)

lemma notify_users_purchases:
  assumes "notify_users dc db (k, i, p, url) al = (s, b, raised)" and "(u, k', q) \<in> set b"
  shows "k' = k \<and> p = Some q \<and> i \<and> u \<in> fst ` set al \<and> qualifies i p k (get_buylist db u)"
  using assms
proof (induction al arbitrary: s b raised)
  case Nil
  then show ?case by simp
next
  case (Cons e al)
  obtain u1 tl1 where e: "e = (u1, tl1)" by (cases e)
  obtain s1 b1 r1 where n1: "notify_user dc db (k, i, p, url) u1 tl1 = (s1, b1, r1)"
    by (cases "notify_user dc db (k, i, p, url) u1 tl1") auto
  obtain s2 b2 r2 where n2: "notify_users dc db (k, i, p, url) al = (s2, b2, r2)"
    by (cases "notify_users dc db (k, i, p, url) al") auto
  from Cons.prems(1) have b: "b = b1 \<or> b = b1 @ b2"
    unfolding e using n1 n2 by (auto split: if_splits)
  with Cons.prems(2) consider "(u, k', q) \<in> set b1" | "(u, k', q) \<in> set b2" by auto
  then show ?case
  proof cases
    case 1
    with notify_user_purchases [OF n1] show ?thesis by (auto simp: e)
  next
    case 2
    with Cons.IH [OF n2] show ?thesis by auto
  qed
qed

lemma notify_users_once:
  assumes "distinct (map fst al)" and "notify_users dc db (k, i, p, url) al = (s, b, raised)"
  shows "length (filter (\<lambda>(u', k', q). u' = u \<and> k' = k0) b) \<le> 1"
  using assms
proof (induction al arbitrary: s b raised)
  case Nil
  then show ?case by simp
next
  case (Cons e al)
  obtain u1 tl1 where e: "e = (u1, tl1)" by (cases e)
  obtain s1 b1 r1 where n1: "notify_user dc db (k, i, p, url) u1 tl1 = (s1, b1, r1)"
    by (cases "notify_user dc db (k, i, p, url) u1 tl1") auto
  obtain s2 b2 r2 where n2: "notify_users dc db (k, i, p, url) al = (s2, b2, r2)"
    by (cases "notify_users dc db (k, i, p, url) al") auto
  from Cons.prems(2) have b: "b = b1 \<or> b = b1 @ b2"
    unfolding e using n1 n2 by (auto split: if_splits)
  from Cons.prems(1) have d: "distinct (map fst al)" and u1: "u1 \<notin> fst ` set al"
    by (auto simp: e)
  have l2: "length (filter (\<lambda>(u', k', q). u' = u \<and> k' = k0) b2) \<le> 1"
    using Cons.IH [OF d n2] .
  have l1: "length (filter (\<lambda>(u', k', q). u' = u \<and> k' = k0) b1) \<le> 1"
    using notify_user_purchases [OF n1] by auto
  show ?case
  proof (cases "u = u1")
    case True
    have "filter (\<lambda>(u', k', q). u' = u \<and> k' = k0) b2 = []"
    proof (rule ccontr)
      assume "filter (\<lambda>(u', k', q). u' = u \<and> k' = k0) b2 \<noteq> []"
      then obtain x where "x \<in> set b2" "(\<lambda>(u', k', q). u' = u \<and> k' = k0) x"
        by (auto simp: filter_empty_conv)
      then obtain q where "(u, k0, q) \<in> set b2" by (cases x) auto
      with notify_users_purchases [OF n2] have "u \<in> fst ` set al" by blast
      with True u1 show False by simp
    qed
    with l1 b show ?thesis by auto
  next
    case False
    have "filter (\<lambda>(u', k', q). u' = u \<and> k' = k0) b1 = []"
      using notify_user_purchases [OF n1] False by auto
    with l2 b show ?thesis by auto
  qed
qed

lemma simulate_other_fields:
  assumes "simulate_stock_change pick unif db = (Some (k, i, p, url), db')"
  shows "user_tracking db' = user_tracking db \<and> get_buylist db' = get_buylist db
         \<and> get_notification_channel db' = get_notification_channel db"
proof -
  from simulate_Some [OF assms]
  have "db' = db\<lparr>stock_status := AList.update k (i, p, url) (stock_status db)\<rparr>" by blast
  then show ?thesis
    by (simp add: get_buylist_def get_notification_channel_def fun_eq_iff)
qed

lemma qualifies_threshold:
  "qualifies i (Some q) k bl \<Longrightarrow> \<exists>T. map_of bl k = Some T \<and> q \<le> T"
  by (auto simp: qualifies_def split: option.splits)

lemma purchase_is_crossing:
  assumes "(u, k, q) \<in> set (purchases (check_stock_task dc gate pick unif db))"
  shows "\<exists>url. event (check_stock_task dc gate pick unif db) = Some (k, True, Some q, url)
           \<and> \<not> fst (check_stock db k)
           \<and> check_stock (db_after (check_stock_task dc gate pick unif db)) k = (True, Some q, url)
           \<and> (\<exists>T. map_of (get_buylist db u) k = Some T \<and> q \<le> T)"
proof (cases dc gate pick unif db rule: tick_cases)
  case quiet
  with assms show ?thesis by simp
next
  case (change k0 i p url db' s b raised)
  from assms change(4) have mem: "(u, k, q) \<in> set b" by simp
  from notify_users_purchases [OF change(3) mem]
  have k: "k = k0" and p: "p = Some q" and i: "i"
    and ql: "qualifies i p k0 (get_buylist db' u)" by auto
  from simulate_check_stock [OF change(2)] k p i
  have "\<not> fst (check_stock db k)" and "check_stock db' k = (True, Some q, url)" by auto
  moreover from ql p k simulate_other_fields [OF change(2)]
  have "\<exists>T. map_of (get_buylist db u) k = Some T \<and> q \<le> T"
    by (auto dest: qualifies_threshold)
  ultimately show ?thesis using change(4) k p i by simp
qed


text \<open>
  Claim C2. In one run of the polling task (user ids being the keys of a dictionary, each
  occurs once) there is at most one purchase attempt for a user and a product. Every
  attempt belongs to a crossing: it comes from the event that moved the product from out of
  stock to in stock at a price at or below the user's threshold. A run that confirms the
  state without changing it makes no attempt, and no run that starts from the state reached
  by the attempt, whatever its random draws, makes another attempt for that product.
\<close>

theorem purchase_once_per_crossing:
  assumes "distinct (map fst (user_tracking db))"
  shows "let r = check_stock_task dc gate pick unif db in
           length (filter (\<lambda>(u', k', q). u' = u \<and> k' = k) (purchases r)) \<le> 1
         \<and> (\<forall>q. (u, k, q) \<in> set (purchases r) \<longrightarrow>
               (\<exists>url. event r = Some (k, True, Some q, url))
               \<and> \<not> fst (check_stock db k) \<and> fst (check_stock (db_after r) k)
               \<and> (\<exists>T. map_of (get_buylist db u) k = Some T \<and> q \<le> T)
               \<and> (\<forall>dc' gate' pick' unif' u' q'.
                     (u', k, q') \<notin> set (purchases (check_stock_task dc' gate' pick' unif' (db_after r)))))
         \<and> (stock_status (db_after r) = stock_status db \<longrightarrow> purchases r = [])"
proof -
  let ?r = "check_stock_task dc gate pick unif db"
  have once: "length (filter (\<lambda>(u', k', q). u' = u \<and> k' = k) (purchases ?r)) \<le> 1"
  proof (cases dc gate pick unif db rule: tick_cases)
    case quiet
    then show ?thesis by simp
  next
    case (change k0 i p url db' s b raised)
    have "distinct (map fst (user_tracking db'))"
      using assms simulate_other_fields [OF change(2)] by simp
    from notify_users_once [OF this change(3)] show ?thesis
      by (simp add: change(4))
  qed
  have crossing: "\<forall>q. (u, k, q) \<in> set (purchases ?r) \<longrightarrow>
               (\<exists>url. event ?r = Some (k, True, Some q, url))
               \<and> \<not> fst (check_stock db k) \<and> fst (check_stock (db_after ?r) k)
               \<and> (\<exists>T. map_of (get_buylist db u) k = Some T \<and> q \<le> T)
               \<and> (\<forall>dc' gate' pick' unif' u' q'.
                     (u', k, q') \<notin> set (purchases (check_stock_task dc' gate' pick' unif' (db_after ?r))))"
  proof (intro allI impI)
    fix q
    assume m: "(u, k, q) \<in> set (purchases ?r)"
    from purchase_is_crossing [OF m] obtain url where
      e: "event ?r = Some (k, True, Some q, url)" and o: "\<not> fst (check_stock db k)"
      and n: "check_stock (db_after ?r) k = (True, Some q, url)"
      and t: "\<exists>T. map_of (get_buylist db u) k = Some T \<and> q \<le> T" by blast
    have instock: "fst (check_stock (db_after ?r) k)" using n by simp
    have "\<forall>dc' gate' pick' unif' u' q'.
            (u', k, q') \<notin> set (purchases (check_stock_task dc' gate' pick' unif' (db_after ?r)))"
    proof (intro allI notI)
      fix dc' gate' pick' unif' u' q'
      assume "(u', k, q') \<in> set (purchases (check_stock_task dc' gate' pick' unif' (db_after ?r)))"
      from purchase_is_crossing [OF this] have "\<not> fst (check_stock (db_after ?r) k)" by blast
      with instock show False by simp
    qed
    with e o instock t show
      "(\<exists>url. event ?r = Some (k, True, Some q, url))
               \<and> \<not> fst (check_stock db k) \<and> fst (check_stock (db_after ?r) k)
               \<and> (\<exists>T. map_of (get_buylist db u) k = Some T \<and> q \<le> T)
               \<and> (\<forall>dc' gate' pick' unif' u' q'.
                     (u', k, q') \<notin> set (purchases (check_stock_task dc' gate' pick' unif' (db_after ?r))))"
      by blast
  qed
  have quiet: "stock_status (db_after ?r) = stock_status db \<longrightarrow> purchases ?r = []"
  proof (cases dc gate pick unif db rule: tick_cases)
    case quiet
    then show ?thesis by simp
  next
    case (change k0 i p url db' s b raised)
    from simulate_changes_status [OF change(2)] show ?thesis by (simp add: change(4))
  qed
  from once crossing quiet show ?thesis unfolding Let_def by blast
qed

lemma demo_simulate:
  "simulate_stock_change 0 (3 / 10) demo_database =
     (Some (demo_key, True, Some 50, demo_url),
      demo_database\<lparr>stock_status := [(demo_key, (True, Some 50, demo_url))]\<rparr>)"
  by (simp add: simulate_stock_change_def demo_database_def round2_50 Let_def demo_key_def demo_url_def)

lemma demo_tick:
  "check_stock_task demo_bot (1 / 10) 0 (3 / 10) demo_database =
     \<lparr>db_after = demo_database\<lparr>stock_status := [(demo_key, (True, Some 50, demo_url))]\<rparr>,
      event = Some (demo_key, True, Some 50, demo_url),
      sent = [(5, StockAlert 2 demo_key True (Some 50) demo_url)],
      purchases = [(1, demo_key, 50)],
      error_logged = False\<rparr>"
proof -
  have k: "demo_key \<noteq> [] \<and> CHR '':'' \<in> set demo_key" by (simp add: demo_key_def)
  have n: "notify_users demo_bot (demo_database\<lparr>stock_status := [(demo_key, (True, Some 50, demo_url))]\<rparr>)
             (demo_key, True, Some 50, demo_url)
             [(1, [demo_key]), (2, [demo_key])]
           = ([(5, StockAlert 2 demo_key True (Some 50) demo_url)], [(1, demo_key, 50)], False)"
    by (simp add: notify_user_def send_to_channel_def get_notification_channel_def
          get_buylist_def qualifies_def demo_database_def demo_bot_def demo_key_def [symmetric])
  have t: "user_tracking demo_database = [(1, [demo_key]), (2, [demo_key])]"
    by (simp add: demo_database_def demo_key_def)
  show ?thesis
    using k n by (simp add: check_stock_task_def demo_simulate t del: notify_users.simps)
qed




lemma demo_distinct: "distinct (map fst (user_tracking demo_database))"
  by (simp add: demo_database_def)

theorem purchase_once_per_crossing_witness:
  "distinct (map fst (user_tracking demo_database))
   \<and> (1, demo_key, 50) \<in> set (purchases (check_stock_task demo_bot (1 / 10) 0 (3 / 10) demo_database))
   \<and> length (filter (\<lambda>(u', k', q). u' = 1 \<and> k' = demo_key)
               (purchases (check_stock_task demo_bot (1 / 10) 0 (3 / 10) demo_database))) \<le> 1
   \<and> \<not> fst (check_stock demo_database demo_key)
   \<and> (7, demo_key, 30) \<notin> set (purchases (check_stock_task demo_bot (1 / 10) 0 (1 / 10)
          (db_after (check_stock_task demo_bot (1 / 10) 0 (3 / 10) demo_database))))"
proof -
  have m: "(1, demo_key, 50) \<in> set (purchases (check_stock_task demo_bot (1 / 10) 0 (3 / 10) demo_database))"
    by (simp add: demo_tick)
  from purchase_once_per_crossing [OF demo_distinct, of demo_bot "1 / 10" 0 "3 / 10" 1 demo_key] m
  show ?thesis
    using demo_distinct unfolding Let_def by blast
qed

section \<open>Purchases\<close>













section \<open>Failures inside a run of the polling task\<close>










section \<open>The fetch executor\<close>

lemma requests_of_append [simp]: "requests_of (xs @ ys) = requests_of xs @ requests_of ys"
  by (simp add: requests_of_def)

lemma backoffs_of_append [simp]: "backoffs_of (xs @ ys) = backoffs_of xs @ backoffs_of ys"
  by (simp add: backoffs_of_def)




















section \<open>The notification dispatcher\<close>

lemma send_attempts_append [simp]: "send_attempts (xs @ ys) = send_attempts xs @ send_attempts ys"
  by (simp add: send_attempts_def)

lemma send_attempts_one:
  "send_attempts (process_notification us n (u, m)) = (if get_user us u then [(u, m)] else [])"
  by (simp add: process_notification_def send_attempts_def split: send_outcome.splits)

lemma task_done_one:
  "length (filter (\<lambda>e. e = TaskDone) (process_notification us n item)) = 1"
  by (cases item) (simp add: process_notification_def split: send_outcome.splits)

lemma dispatcher_goes_on:
  "\<forall>i < length queue. \<not> is_closed (n + i) \<Longrightarrow>
     send_attempts (process_notifications us is_closed n queue) = filter (\<lambda>(u, m). get_user us u) queue
     \<and> length (filter (\<lambda>e. e = TaskDone) (process_notifications us is_closed n queue)) = length queue"
proof (induction queue arbitrary: n)
  case Nil
  show ?case by (simp add: send_attempts_def)
next
  case (Cons item queue)
  obtain u m where item: "item = (u, m)" by (cases item)
  from Cons.prems have open0: "\<not> is_closed n" by auto
  have "\<forall>i < length queue. \<not> is_closed (Suc n + i)"
  proof (intro allI impI)
    fix i assume "i < length queue"
    then have "Suc i < length (item # queue)" by simp
    with Cons.prems have "\<not> is_closed (n + Suc i)" by blast
    then show "\<not> is_closed (Suc n + i)" by simp
  qed
  from Cons.IH [OF this] show ?case
    using open0 by (simp add: item send_attempts_one task_done_one)
qed

text \<open>
  Claim C8, as the code has it. For every queued message the dispatcher makes at most one
  delivery attempt. A recipient who is not found is logged as a warning, with no attempt; a
  send that raises, forbidden or a server error or anything else, is logged at error level
  after its single attempt. In every case the message is marked done and the loop sleeps
  and goes on: while the bot is open, each queued message with a known recipient is
  attempted exactly once, in order, whatever happened to the messages before it.
\<close>

theorem failed_delivery_is_dropped:
  "length (send_attempts (process_notification us n (u, m))) \<le> 1
   \<and> (\<not> get_user us u \<longrightarrow>
        process_notification us n (u, m)
          = [DispatchLog WARNING UserNotFound u, TaskDone, RateLimitSleep 1])
   \<and> (get_user us u \<and> user_send us n u m \<noteq> Delivered \<longrightarrow>
        process_notification us n (u, m)
          = [SendAttempt u m,
             DispatchLog ERROR
               (case user_send us n u m of
                  RaisesDiscordServerError \<Rightarrow> ServerErrorSending
                | RaisesForbidden \<Rightarrow> ForbiddenSending
                | _ \<Rightarrow> ErrorSending) u,
             TaskDone, RateLimitSleep 1])
   \<and> ((\<forall>i < length queue. \<not> is_closed (n + i)) \<longrightarrow>
        send_attempts (process_notifications us is_closed n queue)
          = filter (\<lambda>(u, m). get_user us u) queue
        \<and> length (filter (\<lambda>e. e = TaskDone) (process_notifications us is_closed n queue))
            = length queue)"
proof (intro conjI impI)
  show "length (send_attempts (process_notification us n (u, m))) \<le> 1"
    by (simp add: send_attempts_one)
  show "process_notification us n (u, m)
          = [DispatchLog WARNING UserNotFound u, TaskDone, RateLimitSleep 1]"
    if "\<not> get_user us u" using that by (simp add: process_notification_def)
  show "process_notification us n (u, m)
          = [SendAttempt u m,
             DispatchLog ERROR
               (case user_send us n u m of
                  RaisesDiscordServerError \<Rightarrow> ServerErrorSending
                | RaisesForbidden \<Rightarrow> ForbiddenSending
                | _ \<Rightarrow> ErrorSending) u,
             TaskDone, RateLimitSleep 1]"
    if "get_user us u \<and> user_send us n u m \<noteq> Delivered"
    using that by (simp add: process_notification_def split: send_outcome.splits)
  show "send_attempts (process_notifications us is_closed n queue)
          = filter (\<lambda>(u, m). get_user us u) queue"
    if "\<forall>i < length queue. \<not> is_closed (n + i)"
    using dispatcher_goes_on [OF that] by simp
  show "length (filter (\<lambda>e. e = TaskDone) (process_notifications us is_closed n queue))
            = length queue"
    if "\<forall>i < length queue. \<not> is_closed (n + i)"
    using dispatcher_goes_on [OF that] by simp
qed

text \<open>
  A send that raises Forbidden is logged at error level: the run holds no warning.
\<close>

theorem forbidden_is_logged_as_error:
  "process_notification demo_users 0 (7, ''restock'')
     = [SendAttempt 7 ''restock'', DispatchLog ERROR ForbiddenSending 7, TaskDone, RateLimitSleep 1]
   \<and> DispatchLog WARNING ForbiddenSending 7 \<notin> set (process_notification demo_users 0 (7, ''restock''))"
  by (simp add: process_notification_def demo_users_def)

theorem failed_delivery_is_dropped_witness:
  "\<not> get_user demo_users 9
   \<and> get_user demo_users 7 \<and> user_send demo_users 1 7 ''b'' \<noteq> Delivered
   \<and> process_notification demo_users 0 (9, ''a'')
       = [DispatchLog WARNING UserNotFound 9, TaskDone, RateLimitSleep 1]
   \<and> process_notification demo_users 1 (7, ''b'')
       = [SendAttempt 7 ''b'', DispatchLog ERROR ForbiddenSending 7, TaskDone, RateLimitSleep 1]
   \<and> send_attempts (process_notifications demo_users (\<lambda>k. False) 0 [(9, ''a''), (7, ''b''), (8, ''c'')])
       = [(7, ''b''), (8, ''c'')]"
proof -
  have h1: "\<not> get_user demo_users 9" by (simp add: demo_users_def)
  have h2: "get_user demo_users 7 \<and> user_send demo_users 1 7 ''b'' \<noteq> Delivered"
    by (simp add: demo_users_def)
  have h3: "\<forall>i < length [(9, ''a''), (7, ''b''), (8::nat, ''c'')]. \<not> (\<lambda>k. False) (0 + i)" by simp
  from failed_delivery_is_dropped [of demo_users 0 9 "''a''" "[]" "\<lambda>k. False"] h1
  have a: "process_notification demo_users 0 (9, ''a'')
       = [DispatchLog WARNING UserNotFound 9, TaskDone, RateLimitSleep 1]" by blast
  from failed_delivery_is_dropped [of demo_users 1 7 "''b''" "[]" "\<lambda>k. False"] h2
  have "process_notification demo_users 1 (7, ''b'')
       = [SendAttempt 7 ''b'',
          DispatchLog ERROR
            (case user_send demo_users 1 7 ''b'' of
               RaisesDiscordServerError \<Rightarrow> ServerErrorSending
             | RaisesForbidden \<Rightarrow> ForbiddenSending
             | _ \<Rightarrow> ErrorSending) 7,
          TaskDone, RateLimitSleep 1]"
    by blast
  moreover have "user_send demo_users 1 7 ''b'' = RaisesForbidden" by (simp add: demo_users_def)
  ultimately have b: "process_notification demo_users 1 (7, ''b'')
       = [SendAttempt 7 ''b'', DispatchLog ERROR ForbiddenSending 7, TaskDone, RateLimitSleep 1]"
    by simp
  from failed_delivery_is_dropped [of demo_users 0 9 "''a''" "[(9, ''a''), (7, ''b''), (8, ''c'')]" "\<lambda>k. False"] h3
  have "send_attempts (process_notifications demo_users (\<lambda>k. False) 0 [(9, ''a''), (7, ''b''), (8, ''c'')])
       = filter (\<lambda>(u, m). get_user demo_users u) [(9, ''a''), (7, ''b''), (8, ''c'')]"
    by blast
  moreover have "filter (\<lambda>(u, m). get_user demo_users u) [(9, ''a''), (7, ''b''), (8, ''c'')]
       = [(7, ''b''), (8, ''c'')]"
    by (simp add: demo_users_def)
  ultimately have c: "send_attempts (process_notifications demo_users (\<lambda>k. False) 0 [(9, ''a''), (7, ''b''), (8, ''c'')])
       = [(7, ''b''), (8, ''c'')]"
    by simp
  from h1 h2 a b c show ?thesis by blast
qed

section \<open>Price extraction\<close>

lemma strip_right_Cons:
  "rev (dropWhile P (rev (x # xs))) =
     (if P x \<and> rev (dropWhile P (rev xs)) = [] then [] else x # rev (dropWhile P (rev xs)))"
  by (auto simp: dropWhile_append)

lemma strip_right_Nil_iff: "rev (dropWhile P (rev xs)) = [] \<longleftrightarrow> (\<forall>x \<in> set xs. P x)"
  by (simp add: dropWhile_eq_Nil_conv)

lemma strip_commute:
  "rev (dropWhile P (rev (dropWhile P s))) = dropWhile P (rev (dropWhile P (rev s)))"
proof (induction s)
  case Nil
  show ?case by simp
next
  case (Cons x xs)
  show ?case
  proof (cases "P x")
    case False
    then show ?thesis by (simp add: strip_right_Cons del: rev.simps)
  next
    case True
    show ?thesis
    proof (cases "\<forall>y \<in> set xs. P y")
      case all: True
      then have "dropWhile P (x # xs) = []" using True by (simp add: dropWhile_eq_Nil_conv)
      then have l: "rev (dropWhile P (rev (dropWhile P (x # xs)))) = []" by (simp only:) simp
      have "rev (dropWhile P (rev (x # xs))) = []"
        using all True by (simp add: strip_right_Nil_iff del: rev.simps)
      then have r: "dropWhile P (rev (dropWhile P (rev (x # xs)))) = []" by (simp only:) simp
      show ?thesis by (simp only: l r)
    next
      case False
      then have "rev (dropWhile P (rev xs)) \<noteq> []" by (simp add: strip_right_Nil_iff)
      then have "rev (dropWhile P (rev (x # xs))) = x # rev (dropWhile P (rev xs))"
        by (simp add: strip_right_Cons del: rev.simps)
      then have "dropWhile P (rev (dropWhile P (rev (x # xs)))) = dropWhile P (rev (dropWhile P (rev xs)))"
        using True by simp
      with Cons.IH True show ?thesis by simp
    qed
  qed
qed

lemma py_strip_spec: "py_strip s = surrounding_whitespace_removed s"
  by (simp add: py_strip_def surrounding_whitespace_removed_def strip_commute)

lemma py_remove_all:
  "py_remove 44 (py_remove 163 (py_remove 8364 (py_remove 36 t)))
     = filter (\<lambda>c. c \<notin> {36, 8364, 163, 44}) t"
  by (induction t) (auto simp: py_remove_def)

lemma cleaned_eq:
  "py_strip (py_remove 44 (py_remove 163 (py_remove 8364 (py_remove 36 t)))) = spec_cleaned t"
  by (simp only: py_remove_all py_strip_spec spec_cleaned_def)

lemma spec_cleaned_chars: "c \<in> set (spec_cleaned t) \<Longrightarrow> c \<notin> {36, 8364, 163, 44}"
proof -
  assume "c \<in> set (spec_cleaned t)"
  then have "c \<in> set (rev (dropWhile py_isspace (rev (filter (\<lambda>c. c \<notin> {36, 8364, 163, 44}) t))))"
    unfolding spec_cleaned_def surrounding_whitespace_removed_def by (rule set_dropWhileD)
  then have "c \<in> set (dropWhile py_isspace (rev (filter (\<lambda>c. c \<notin> {36, 8364, 163, 44}) t)))"
    by simp
  then have "c \<in> set (rev (filter (\<lambda>c. c \<notin> {36, 8364, 163, 44}) t))"
    by (rule set_dropWhileD)
  then show ?thesis by simp
qed

lemma spec_cleaned_ends:
  assumes "spec_cleaned t \<noteq> []"
  shows "\<not> py_isspace (hd (spec_cleaned t)) \<and> \<not> py_isspace (last (spec_cleaned t))"
proof -
  let ?f = "filter (\<lambda>c. c \<notin> {36, 8364, 163, 44}) t"
  have a: "spec_cleaned t = dropWhile py_isspace (rev (dropWhile py_isspace (rev ?f)))"
    by (simp add: spec_cleaned_def surrounding_whitespace_removed_def)
  have b: "spec_cleaned t = rev (dropWhile py_isspace (rev (dropWhile py_isspace ?f)))"
    by (simp add: a strip_commute)
  have "\<not> py_isspace (hd (spec_cleaned t))"
    using assms unfolding a by (rule hd_dropWhile)
  moreover have "dropWhile py_isspace (rev (dropWhile py_isspace ?f)) \<noteq> []"
    using assms b by auto
  then have "\<not> py_isspace (hd (dropWhile py_isspace (rev (dropWhile py_isspace ?f))))"
    by (rule hd_dropWhile)
  then have "\<not> py_isspace (last (spec_cleaned t))"
    using assms by (simp add: b last_rev)
  ultimately show ?thesis by simp
qed

text \<open>
  Claim C9. \<open>extract_price\<close> returns a value on every input (the one exception the source
  can meet, the ValueError of \<open>float\<close>, is caught and becomes \<open>None\<close>): \<open>None\<close> on
  \<open>None\<close>, and on a string what \<open>float\<close> makes of the cleaned text, \<open>None\<close> when that does
  not parse. The empty string, which the source answers with \<open>None\<close> without calling
  \<open>float\<close>, is covered because \<open>float\<close> does not parse the empty text. The cleaned text is
  the text without its dollar, euro, pound and comma characters and without the whitespace
  around it: it holds none of the four characters and neither starts nor ends with
  whitespace.
\<close>

theorem extract_price_total:
  "extract_price pyfloat None = None
   \<and> (pyfloat [] = None \<longrightarrow> extract_price pyfloat (Some t) = pyfloat (spec_cleaned t))
   \<and> (t \<noteq> [] \<longrightarrow> extract_price pyfloat (Some t) = pyfloat (spec_cleaned t))
   \<and> (\<forall>c \<in> set (spec_cleaned t). c \<notin> {36, 8364, 163, 44})
   \<and> (spec_cleaned t \<noteq> [] \<longrightarrow>
        \<not> py_isspace (hd (spec_cleaned t)) \<and> \<not> py_isspace (last (spec_cleaned t)))"
proof (intro conjI impI ballI)
  show "extract_price pyfloat None = None" by (simp add: extract_price_def)
  show "extract_price pyfloat (Some t) = pyfloat (spec_cleaned t)" if "pyfloat [] = None"
  proof (cases "t = []")
    case True
    then show ?thesis using that
      by (simp add: extract_price_def spec_cleaned_def surrounding_whitespace_removed_def)
  next
    case False
    then show ?thesis by (simp add: extract_price_def cleaned_eq)
  qed
  show "extract_price pyfloat (Some t) = pyfloat (spec_cleaned t)" if "t \<noteq> []"
    using that by (simp add: extract_price_def cleaned_eq)
  show "c \<notin> {36, 8364, 163, 44}" if "c \<in> set (spec_cleaned t)" for c
    using that by (rule spec_cleaned_chars)
  show "\<not> py_isspace (hd (spec_cleaned t))" if "spec_cleaned t \<noteq> []"
    using spec_cleaned_ends [OF that] by simp
  show "\<not> py_isspace (last (spec_cleaned t))" if "spec_cleaned t \<noteq> []"
    using spec_cleaned_ends [OF that] by simp
qed

lemma demo_cleaned: "spec_cleaned [32, 36, 49, 44, 50, 57, 57, 10] = [49, 50, 57, 57]"
  by (simp add: spec_cleaned_def surrounding_whitespace_removed_def py_isspace_def)

theorem extract_price_total_witness:
  "digits_only_float [] = None
   \<and> [32, 36, 49, 44, 50, 57, 57, 10] \<noteq> ([] :: nat list)
   \<and> spec_cleaned [32, 36, 49, 44, 50, 57, 57, 10] \<noteq> []
   \<and> extract_price digits_only_float (Some [32, 36, 49, 44, 50, 57, 57, 10]) = Some 1299
   \<and> extract_price digits_only_float (Some [36, 49, 46]) = None
   \<and> 44 \<notin> set (spec_cleaned [32, 36, 49, 44, 50, 57, 57, 10])"
proof -
  have h: "digits_only_float [] = None" by (simp add: digits_only_float_def)
  have n: "spec_cleaned [32, 36, 49, 44, 50, 57, 57, 10] \<noteq> []" by (simp add: demo_cleaned)
  from extract_price_total [of digits_only_float "[32, 36, 49, 44, 50, 57, 57, 10]"] h
  have "extract_price digits_only_float (Some [32, 36, 49, 44, 50, 57, 57, 10])
          = digits_only_float (spec_cleaned [32, 36, 49, 44, 50, 57, 57, 10])"
    and c: "\<forall>c \<in> set (spec_cleaned [32, 36, 49, 44, 50, 57, 57, 10]). c \<notin> {36, 8364, 163, 44}"
    by blast+
  then have a: "extract_price digits_only_float (Some [32, 36, 49, 44, 50, 57, 57, 10]) = Some 1299"
    by (simp add: demo_cleaned digits_only_float_def)
  have "spec_cleaned [36, 49, 46] = [49, 46]"
    by (simp add: spec_cleaned_def surrounding_whitespace_removed_def py_isspace_def)
  with extract_price_total [of digits_only_float "[36, 49, 46]"] h
  have b: "extract_price digits_only_float (Some [36, 49, 46]) = None"
    by (simp add: digits_only_float_def)
  from c have d: "44 \<notin> set (spec_cleaned [32, 36, 49, 44, 50, 57, 57, 10])" by blast
  from h n a b d show ?thesis by simp
qed

end
